theory Spec2Isabelle
  imports Complex_Main
begin

section \<open>JavaScript numbers\<close>

text \<open>
  The viewer's helpers compute with JavaScript numbers. The model keeps the three
  special values that the code itself distinguishes (\<open>isNaN\<close>, \<open>Infinity\<close> as
  accepted by \<open>parseFloat\<close>) and takes every finite number as a real: finite
  arithmetic is exact (no rounding, overflow or underflow of binary64), and zero has
  no sign.
\<close>

datatype jsnum = Fin real | PInf | NInf | NaN

definition isNaN :: "jsnum \<Rightarrow> bool" where
  "isNaN v = (v = NaN)"

text \<open>\<open>a - b\<close>\<close>

fun jsub :: "jsnum \<Rightarrow> jsnum \<Rightarrow> jsnum" where
  "jsub NaN _ = NaN"
| "jsub _ NaN = NaN"
| "jsub (Fin a) (Fin b) = Fin (a - b)"
| "jsub (Fin a) PInf = NInf"
| "jsub (Fin a) NInf = PInf"
| "jsub PInf PInf = NaN"
| "jsub PInf _ = PInf"
| "jsub NInf NInf = NaN"
| "jsub NInf _ = NInf"

text \<open>\<open>a + b\<close>\<close>

fun jadd :: "jsnum \<Rightarrow> jsnum \<Rightarrow> jsnum" where
  "jadd NaN _ = NaN"
| "jadd _ NaN = NaN"
| "jadd (Fin a) (Fin b) = Fin (a + b)"
| "jadd (Fin a) PInf = PInf"
| "jadd (Fin a) NInf = NInf"
| "jadd PInf NInf = NaN"
| "jadd PInf _ = PInf"
| "jadd NInf PInf = NaN"
| "jadd NInf _ = NInf"

text \<open>The sign of a number that is not NaN, as \<open>-1\<close>, \<open>0\<close> or \<open>1\<close>.\<close>

fun jsign :: "jsnum \<Rightarrow> int" where
  "jsign (Fin a) = (if a < 0 then - 1 else if a = 0 then 0 else 1)"
| "jsign PInf = 1"
| "jsign NInf = - 1"
| "jsign NaN = 0"

text \<open>\<open>a * b\<close>: an infinite factor times zero is NaN, otherwise the signs multiply.\<close>

fun jmul :: "jsnum \<Rightarrow> jsnum \<Rightarrow> jsnum" where
  "jmul NaN _ = NaN"
| "jmul _ NaN = NaN"
| "jmul (Fin a) (Fin b) = Fin (a * b)"
| "jmul a b =
     (if jsign a * jsign b = 0 then NaN
      else if jsign a * jsign b < 0 then NInf else PInf)"

text \<open>\<open>a / b\<close>, the divisor zero being \<open>+0\<close>.\<close>

fun jdiv :: "jsnum \<Rightarrow> jsnum \<Rightarrow> jsnum" where
  "jdiv NaN _ = NaN"
| "jdiv _ NaN = NaN"
| "jdiv (Fin a) (Fin b) =
     (if b = 0 then (if a = 0 then NaN else if a < 0 then NInf else PInf)
      else Fin (a / b))"
| "jdiv (Fin a) _ = Fin 0"
| "jdiv a (Fin b) =
     (if b < 0 then (if a = PInf then NInf else PInf) else a)"
| "jdiv _ _ = NaN"

text \<open>\<open>a < b\<close>: false as soon as one side is NaN.\<close>

fun jless :: "jsnum \<Rightarrow> jsnum \<Rightarrow> bool" where
  "jless NaN _ = False"
| "jless _ NaN = False"
| "jless (Fin a) (Fin b) = (a < b)"
| "jless _ NInf = False"
| "jless NInf _ = True"
| "jless PInf _ = False"
| "jless (Fin a) PInf = True"

text \<open>\<open>Math.sqrt\<close>\<close>

fun Math_sqrt :: "jsnum \<Rightarrow> jsnum" where
  "Math_sqrt (Fin a) = (if a < 0 then NaN else Fin (sqrt a))"
| "Math_sqrt PInf = PInf"
| "Math_sqrt NInf = NaN"
| "Math_sqrt NaN = NaN"

text \<open>\<open>Math.min\<close> of two numbers: NaN if either is, else the smaller.\<close>

fun Math_min :: "jsnum \<Rightarrow> jsnum \<Rightarrow> jsnum" where
  "Math_min NaN _ = NaN"
| "Math_min _ NaN = NaN"
| "Math_min a b = (if jless b a then b else a)"

text \<open>\<open>Math.round\<close>: the nearest integer, a tie going up.\<close>

fun Math_round :: "jsnum \<Rightarrow> jsnum" where
  "Math_round (Fin a) = Fin (of_int \<lfloor>a + 1 / 2\<rfloor>)"
| "Math_round v = v"

section \<open>JavaScript maps\<close>

text \<open>
  A \<open>Map\<close> is the list of its entries in insertion order, one entry per key.
  \<open>Map_set\<close> replaces the value of a key that is present, in place, and appends
  a new key at the end; \<open>Map_get\<close> returns \<open>None\<close> for \<open>undefined\<close>.
\<close>

type_synonym ('k, 'v) jsmap = "('k \<times> 'v) list"

fun Map_set :: "('k, 'v) jsmap \<Rightarrow> 'k \<Rightarrow> 'v \<Rightarrow> ('k, 'v) jsmap" where
  "Map_set [] k v = [(k, v)]"
| "Map_set ((k', v') # es) k v =
     (if k' = k then (k, v) # es else (k', v') # Map_set es k v)"

definition Map_get :: "('k, 'v) jsmap \<Rightarrow> 'k \<Rightarrow> 'v option" where
  "Map_get m k = map_of m k"

definition Map_keys :: "('k, 'v) jsmap \<Rightarrow> 'k set" where
  "Map_keys m = fst ` set m"

text \<open>The invariant of a \<open>Map\<close>: no key occurs twice.\<close>

definition wf_Map :: "('k, 'v) jsmap \<Rightarrow> bool" where
  "wf_Map m = distinct (map fst m)"

section \<open>Per-residue displacement\<close>

record coord =
  x :: jsnum
  y :: jsnum
  z :: jsnum

text \<open>
  The body of the loop of \<open>computePerResidueRmsd\<close> for one pair of coordinates:
  \<open>Math.sqrt(dx * dx + dy * dy + dz * dz)\<close>.
\<close>

definition ca_dist :: "coord \<Rightarrow> coord \<Rightarrow> jsnum" where
  "ca_dist wCoord mCoord =
     (let dx = jsub (x wCoord) (x mCoord);
          dy = jsub (y wCoord) (y mCoord);
          dz = jsub (z wCoord) (z mCoord)
      in Math_sqrt (jadd (jadd (jmul dx dx) (jmul dy dy)) (jmul dz dz)))"

text \<open>
  \<open>for (const [resi, wCoord] of wildCa)\<close>: the entries of \<open>wildCa\<close> in insertion
  order, with \<open>rmsdMap\<close> as the accumulator; an entry without partner in
  \<open>mutantCa\<close> is passed over (\<open>continue\<close>).
\<close>

fun rmsd_loop ::
  "(int, coord) jsmap \<Rightarrow> (int, coord) jsmap \<Rightarrow> (int, jsnum) jsmap \<Rightarrow> (int, jsnum) jsmap"
where
  "rmsd_loop [] mutantCa rmsdMap = rmsdMap"
| "rmsd_loop ((resi, wCoord) # rest) mutantCa rmsdMap =
     (case Map_get mutantCa resi of
        None \<Rightarrow> rmsd_loop rest mutantCa rmsdMap
      | Some mCoord \<Rightarrow>
          rmsd_loop rest mutantCa (Map_set rmsdMap resi (ca_dist wCoord mCoord)))"

definition computePerResidueRmsd ::
  "(int, coord) jsmap \<Rightarrow> (int, coord) jsmap \<Rightarrow> (int, jsnum) jsmap" where
  "computePerResidueRmsd wildCa mutantCa = rmsd_loop wildCa mutantCa []"

section \<open>Strings\<close>

text \<open>
  A string is the list of its code units, taken as 8-bit characters (structure files
  are ASCII). The functions below are the string methods the parser calls.
\<close>

text \<open>White space as \<open>trim\<close> and the number parsers strip it: TAB, LF, VT, FF, CR, SP, NBSP.\<close>

definition js_whitespace :: "char \<Rightarrow> bool" where
  "js_whitespace c =
     (c \<in> set [CHR 0x09, CHR 0x0A, CHR 0x0B, CHR 0x0C, CHR 0x0D, CHR 0x20, CHR 0xA0])"

definition trimStart :: "string \<Rightarrow> string" where
  "trimStart s = dropWhile js_whitespace s"

definition trim :: "string \<Rightarrow> string" where
  "trim s = rev (dropWhile js_whitespace (rev (dropWhile js_whitespace s)))"

text \<open>\<open>s.split(sep)\<close> for a separator of one character: never the empty list.\<close>

fun split :: "string \<Rightarrow> char \<Rightarrow> string list" where
  "split [] sep = [[]]"
| "split (c # cs) sep =
     (if c = sep then [] # split cs sep
      else (case split cs sep of
              [] \<Rightarrow> [[c]]
            | l # ls \<Rightarrow> (c # l) # ls))"

definition startsWith :: "string \<Rightarrow> string \<Rightarrow> bool" where
  "startsWith s p = (take (length p) s = p)"

text \<open>\<open>s.substring(a, b)\<close>: the arguments are swapped when \<open>a > b\<close> and cut at the length.\<close>

definition substring :: "string \<Rightarrow> nat \<Rightarrow> nat \<Rightarrow> string" where
  "substring s a b = take (max a b - min a b) (drop (min a b) s)"

definition is_digit :: "char \<Rightarrow> bool" where
  "is_digit c = (c \<in> set ''0123456789'')"

definition digit_val :: "char \<Rightarrow> nat" where
  "digit_val c = length (takeWhile (\<lambda>d. d \<noteq> c) ''0123456789'')"

definition digits_val :: "string \<Rightarrow> nat" where
  "digits_val ds = foldl (\<lambda>a c. 10 * a + digit_val c) 0 ds"

text \<open>An optional sign in front: whether it is a minus, and the rest.\<close>

definition strip_sign :: "string \<Rightarrow> bool \<times> string" where
  "strip_sign s =
     (case s of
        [] \<Rightarrow> (False, s)
      | c # r \<Rightarrow>
          if c = CHR ''-'' then (True, r)
          else if c = CHR ''+'' then (False, r)
          else (False, s))"

text \<open>
  \<open>parseInt(s, 10)\<close>: leading white space, a sign, then the longest run of decimal
  digits; \<open>None\<close> stands for NaN (no digit). The value is taken exactly (the field
  read by the parser has four characters).
\<close>

definition parseInt :: "string \<Rightarrow> int option" where
  "parseInt s =
     (let (neg, u) = strip_sign (trimStart s);
          ds = takeWhile is_digit u
      in if ds = [] then None
         else Some (if neg then - int (digits_val ds) else int (digits_val ds)))"

definition pow10 :: "int \<Rightarrow> real" where
  "pow10 e = (if 0 \<le> e then 10 ^ nat e else 1 / 10 ^ nat (- e))"

text \<open>The exponent part \<open>e\<close>, sign, digits, read only when it is complete; else 0.\<close>

definition exponent_part :: "string \<Rightarrow> int" where
  "exponent_part s =
     (case s of
        [] \<Rightarrow> 0
      | c # r \<Rightarrow>
          if c = CHR ''e'' \<or> c = CHR ''E'' then
            (let (neg, u) = strip_sign r;
                 ds = takeWhile is_digit u
             in if ds = [] then 0
                else if neg then - int (digits_val ds) else int (digits_val ds))
          else 0)"

text \<open>
  \<open>parseFloat(s)\<close>: leading white space, then the longest prefix that is a decimal
  literal: a sign, then \<open>Infinity\<close>, or digits with an optional fraction and
  exponent; NaN when there is no such prefix. The value of the literal is taken
  exactly.
\<close>

definition parseFloat :: "string \<Rightarrow> jsnum" where
  "parseFloat s =
     (let (neg, u) = strip_sign (trimStart s)
      in if startsWith u ''Infinity'' then (if neg then NInf else PInf)
         else
           let ip = takeWhile is_digit u;
               r1 = dropWhile is_digit u;
               dot = (r1 \<noteq> [] \<and> hd r1 = CHR ''.'');
               fp = (if dot then takeWhile is_digit (tl r1) else []);
               r2 = (if dot then dropWhile is_digit (tl r1) else r1)
           in if ip = [] \<and> fp = [] then NaN
              else
                let m = real (digits_val (ip @ fp))
                          * pow10 (exponent_part r2 - int (length fp))
                in Fin (if neg then - m else m))"

section \<open>The parser\<close>

text \<open>
  The body of the loop of \<open>parseCaAtoms\<close> for one line, \<open>atoms\<close> being the map
  built so far: each \<open>continue\<close> and the failed final test leave the map as it is.
\<close>

definition parse_line :: "(int, coord) jsmap \<Rightarrow> string \<Rightarrow> (int, coord) jsmap" where
  "parse_line atoms line =
     (if \<not> startsWith line ''ATOM  '' then atoms
      else
        let atomName = trim (substring line 12 16)
        in if atomName \<noteq> ''CA'' then atoms
           else
             let resi = parseInt (trim (substring line 22 26));
                 x = parseFloat (trim (substring line 30 38));
                 y = parseFloat (trim (substring line 38 46));
                 z = parseFloat (trim (substring line 46 54))
             in (case resi of
                   None \<Rightarrow> atoms
                 | Some r \<Rightarrow>
                     if \<not> isNaN x \<and> \<not> isNaN y \<and> \<not> isNaN z
                     then Map_set atoms r \<lparr>x = x, y = y, z = z\<rparr>
                     else atoms))"

definition parseCaAtoms :: "string \<Rightarrow> (int, coord) jsmap" where
  "parseCaAtoms pdb = foldl parse_line [] (split pdb CHR 0x0A)"

text \<open>
  What one line contributes: the residue index and the coordinates of a line that
  passes every test of the loop body, \<open>None\<close> for a line that is passed over.
\<close>

definition ca_record :: "string \<Rightarrow> (int \<times> coord) option" where
  "ca_record line =
     (if startsWith line ''ATOM  '' \<and> trim (substring line 12 16) = ''CA'' then
        (case parseInt (trim (substring line 22 26)) of
           None \<Rightarrow> None
         | Some r \<Rightarrow>
             (let cx = parseFloat (trim (substring line 30 38));
                  cy = parseFloat (trim (substring line 38 46));
                  cz = parseFloat (trim (substring line 46 54))
              in if isNaN cx \<or> isNaN cy \<or> isNaN cz then None
                 else Some (r, \<lparr>x = cx, y = cy, z = cz\<rparr>)))
      else None)"

section \<open>The displacement colour\<close>

record atom =
  resi :: int

text \<open>
  The \<open>colorfunc\<close> callback handed to the viewer (both copies in the source are the
  same). It returns the string \<open>"rgb(" + r + "," + g + "," + b + ")"\<close>; the model
  returns the three numbers that the string is made of.
\<close>

definition colorfunc :: "(int, jsnum) jsmap \<Rightarrow> atom \<Rightarrow> jsnum \<times> jsnum \<times> jsnum" where
  "colorfunc rmsdMap a =
     (let rmsd = (case Map_get rmsdMap (resi a) of None \<Rightarrow> Fin 0 | Some v \<Rightarrow> v)
      in if jless rmsd (Fin 2) then
           let t = jdiv rmsd (Fin 2);
               r = Math_round (Fin 255);
               g = Math_round (Fin 255);
               b = Math_round (jmul (Fin 255) (jsub (Fin 1) t))
           in (r, g, b)
         else
           let t = Math_min (jdiv (jsub rmsd (Fin 2)) (Fin 3)) (Fin 1);
               r = Fin 255;
               g = Math_round (jmul (Fin 255) (jsub (Fin 1) t));
               b = Fin 0
           in (r, g, b))"








text \<open>The colour of one displacement value: the callback on a map that holds it.\<close>

definition displacement_color :: "jsnum \<Rightarrow> jsnum \<times> jsnum \<times> jsnum" where
  "displacement_color v = colorfunc [(0, v)] \<lparr>resi = 0\<rparr>"

section \<open>The rendering cycle\<close>

text \<open>
  The effect of \<open>StructureViewer\<close> and \<open>load3Dmol\<close> run on one thread, in
  callbacks: React runs the effect and its cleanup, the browser delivers the
  \<open>load\<close> event of the script. The model is a state of the page and one step per
  such event. A cycle is one run of the effect, numbered in the order of the runs;
  its number stands for the closure of that run (its \<open>cancelled\<close> flags, its
  viewer variables).
\<close>

text \<open>The three wrapper elements: \<open>singleWrapperRef\<close>, \<open>wildWrapperRef\<close>, \<open>mutantWrapperRef\<close>.\<close>

datatype surface = SingleSurface | WildSurface | MutantSurface

text \<open>The properties of the component that the effect reads.\<close>

record props =
  pdbData :: string
  mutationPosition :: int
  mutantPdbData :: "string option"

text \<open>\<open>Boolean(mutantPdbData)\<close>: false for \<open>null\<close>, \<open>undefined\<close> and the empty string.\<close>

definition isDual :: "props \<Rightarrow> bool" where
  "isDual p = (case mutantPdbData p of None \<Rightarrow> False | Some t \<Rightarrow> t \<noteq> [])"

text \<open>The dependency list of the effect.\<close>

definition deps :: "props \<Rightarrow> string \<times> string option \<times> int \<times> bool" where
  "deps p = (pdbData p, mutantPdbData p, mutationPosition p, isDual p)"

text \<open>A viewer instance: the cycle that created it, where it is mounted, the text it shows.\<close>

record viewer =
  owner :: nat
  mount :: surface
  model :: string

record page =
  engine :: bool
  script_tag :: bool
  load_listeners :: "(nat \<times> props) list"
  load_cancelled :: "nat set"
  effect_cancelled :: "nat set"
  wrappers :: "surface set"
  created :: "viewer list"
  live :: "viewer list"
  loading :: bool
  current :: "(nat \<times> props) option"
  next_cycle :: nat

text \<open>
  \<open>engine\<close>: \<open>window.$3Dmol\<close> is defined. \<open>script_tag\<close>: the document has the
  script element. \<open>load_listeners\<close>: the \<open>fire\<close> closures that listen for its
  \<open>load\<close> event, each with the properties its \<open>onReady\<close> has captured.
  \<open>load_cancelled\<close>, \<open>effect_cancelled\<close>: the cycles whose flag \<open>cancelled\<close> of
  \<open>load3Dmol\<close>, of the effect, is true. \<open>wrappers\<close>: the wrapper refs that are
  attached. \<open>created\<close>: every viewer that \<open>createViewer\<close> has returned, in order;
  \<open>live\<close>: those not cleared since. \<open>current\<close>: the cycle whose cleanup React holds.
\<close>

definition createViewer :: "viewer \<Rightarrow> page \<Rightarrow> page" where
  "createViewer v s = s\<lparr>created := created s @ [v], live := live s @ [v]\<rparr>"

text \<open>The callback that the effect of cycle \<open>c\<close> hands to \<open>load3Dmol\<close>.\<close>

definition onReady :: "nat \<Rightarrow> props \<Rightarrow> page \<Rightarrow> page" where
  "onReady c p s =
     (if c \<in> effect_cancelled s then s
      else if \<not> engine s then s
      else if \<not> isDual p then
        (if SingleSurface \<notin> wrappers s then s
         else (createViewer \<lparr>owner = c, mount = SingleSurface, model = pdbData p\<rparr> s)
                \<lparr>loading := False\<rparr>)
      else
        (case mutantPdbData p of
           None \<Rightarrow> s
         | Some mutantText \<Rightarrow>
             if WildSurface \<notin> wrappers s \<or> MutantSurface \<notin> wrappers s \<or> mutantText = []
             then s
             else (createViewer \<lparr>owner = c, mount = MutantSurface, model = mutantText\<rparr>
                    (createViewer \<lparr>owner = c, mount = WildSurface, model = pdbData p\<rparr> s))
                    \<lparr>loading := False\<rparr>))"

text \<open>\<open>fire\<close> of \<open>load3Dmol\<close>: \<open>if (!cancelled) onReady()\<close>.\<close>

definition fire :: "nat \<Rightarrow> props \<Rightarrow> page \<Rightarrow> page" where
  "fire c p s = (if c \<in> load_cancelled s then s else onReady c p s)"

definition addEventListener :: "nat \<Rightarrow> props \<Rightarrow> page \<Rightarrow> page" where
  "addEventListener c p s = s\<lparr>load_listeners := load_listeners s @ [(c, p)]\<rparr>"

text \<open>\<open>load3Dmol(onReady)\<close>, called by cycle \<open>c\<close>.\<close>

definition load3Dmol :: "nat \<Rightarrow> props \<Rightarrow> page \<Rightarrow> page" where
  "load3Dmol c p s =
     (if engine s then fire c p s
      else if script_tag s then
        (if engine s then fire c p s else addEventListener c p s)
      else addEventListener c p (s\<lparr>script_tag := True\<rparr>))"

text \<open>
  The function that \<open>load3Dmol\<close> returns. Its three forms set \<open>cancelled\<close>, and
  two of them remove the listener; the first has not added one, so removing is the
  same there.
\<close>

definition load_cleanup :: "nat \<Rightarrow> page \<Rightarrow> page" where
  "load_cleanup c s =
     s\<lparr>load_cancelled := insert c (load_cancelled s),
       load_listeners := filter (\<lambda>l. fst l \<noteq> c) (load_listeners s)\<rparr>"

text \<open>The body of the effect: \<open>setLoading(true)\<close>, then \<open>load3Dmol\<close>.\<close>

definition effect :: "nat \<Rightarrow> props \<Rightarrow> page \<Rightarrow> page" where
  "effect c p s = load3Dmol c p (s\<lparr>loading := True\<rparr>)"

text \<open>
  The cleanup of the effect: \<open>cancelled = true\<close>, \<open>cleanup()\<close>, then the viewers of
  the cycle are cleared.
\<close>

definition cleanup :: "nat \<Rightarrow> page \<Rightarrow> page" where
  "cleanup c s =
     (let s1 = s\<lparr>effect_cancelled := insert c (effect_cancelled s)\<rparr>;
          s2 = load_cleanup c s1
      in s2\<lparr>live := filter (\<lambda>v. owner v \<noteq> c) (live s2)\<rparr>)"

text \<open>The wrappers that the component renders for its properties.\<close>

definition surfaces :: "props \<Rightarrow> surface list" where
  "surfaces p = (if isDual p then [WildSurface, MutantSurface] else [SingleSurface])"

text \<open>
  What happens to the page: React commits a rendering with new properties, or
  unmounts the component, or the script finishes loading.
\<close>

datatype event = Render props | Unmount | ScriptLoad

definition run_effect :: "props \<Rightarrow> page \<Rightarrow> page" where
  "run_effect p s =
     effect (next_cycle s) p
       (s\<lparr>current := Some (next_cycle s, p), next_cycle := Suc (next_cycle s)\<rparr>)"

text \<open>
  React attaches the refs of what was rendered, and when a dependency has changed
  runs the cleanup of the previous cycle and then the effect again. The script, once
  loaded, defines the engine and its \<open>load\<close> event calls the listeners in order.
\<close>

fun step :: "page \<Rightarrow> event \<Rightarrow> page" where
  "step s (Render p) =
     (let s1 = s\<lparr>wrappers := set (surfaces p)\<rparr>
      in case current s of
           None \<Rightarrow> run_effect p s1
         | Some (c, q) \<Rightarrow>
             if deps q = deps p then s1 else run_effect p (cleanup c s1))"
| "step s Unmount =
     (case current s of
        None \<Rightarrow> s\<lparr>wrappers := {}\<rparr>
      | Some (c, q) \<Rightarrow> (cleanup c s)\<lparr>wrappers := {}, current := None\<rparr>)"
| "step s ScriptLoad =
     (if script_tag s \<and> \<not> engine s
      then foldl (\<lambda>t l. fire (fst l) (snd l) t) (s\<lparr>engine := True\<rparr>) (load_listeners s)
      else s)"

definition run :: "event list \<Rightarrow> page \<Rightarrow> page" where
  "run es s = foldl step s es"

text \<open>The page before the component is first rendered (\<open>useState(true)\<close>).\<close>

definition init :: page where
  "init = \<lparr>engine = False, script_tag = False, load_listeners = [],
          load_cancelled = {}, effect_cancelled = {}, wrappers = {},
          created = [], live = [], loading = True, current = None, next_cycle = 0\<rparr>"

text \<open>Scenario D: the structure text changes while the script is still loading.\<close>

definition first_props :: props where
  "first_props = \<lparr>pdbData = ''first'', mutationPosition = 175, mutantPdbData = None\<rparr>"

definition second_props :: props where
  "second_props = \<lparr>pdbData = ''second'', mutationPosition = 175, mutantPdbData = None\<rparr>"

text \<open>The viewers that \<open>onReady\<close> of cycle \<open>c\<close> creates when nothing stops it.\<close>

definition viewers_of :: "nat \<Rightarrow> props \<Rightarrow> viewer list" where
  "viewers_of c p =
     (if isDual p
      then [\<lparr>owner = c, mount = WildSurface, model = pdbData p\<rparr>,
            \<lparr>owner = c, mount = MutantSurface, model = the (mutantPdbData p)\<rparr>]
      else [\<lparr>owner = c, mount = SingleSurface, model = pdbData p\<rparr>])"

text \<open>
  What holds of the page after every event. Every live viewer belongs to the current
  cycle. Once the engine is there, the live viewers are those of the current cycle,
  one on each of its wrappers. Before, no viewer has been created and the only
  listener is that of the current cycle. The current cycle is not cancelled, and no
  cycle to come is.
\<close>

definition cycle_inv :: "page \<Rightarrow> bool" where
  "cycle_inv s \<longleftrightarrow>
     (\<forall>v\<in>set (live s). \<exists>p. current s = Some (owner v, p)) \<and>
     (engine s \<longrightarrow>
        (case current s of
           None \<Rightarrow> live s = []
         | Some (c, p) \<Rightarrow> map mount (live s) = surfaces p)) \<and>
     (\<not> engine s \<longrightarrow>
        created s = [] \<and> live s = [] \<and>
        load_listeners s = (case current s of None \<Rightarrow> [] | Some cp \<Rightarrow> [cp]) \<and>
        (current s \<noteq> None \<longrightarrow> script_tag s)) \<and>
     (\<forall>c p. current s = Some (c, p) \<longrightarrow>
        c < next_cycle s \<and> c \<notin> effect_cancelled s \<and> c \<notin> load_cancelled s \<and>
        wrappers s = set (surfaces p)) \<and>
     (\<forall>c\<in>effect_cancelled s \<union> load_cancelled s. c < next_cycle s)"

text \<open>Cycle \<open>c\<close> is cancelled, and \<open>vs\<close> are the viewers it has created.\<close>

definition stale :: "nat \<Rightarrow> viewer list \<Rightarrow> page \<Rightarrow> bool" where
  "stale c vs s \<longleftrightarrow>
     c \<in> effect_cancelled s \<and> c < next_cycle s \<and>
     filter (\<lambda>v. owner v = c) (created s) = vs"

section \<open>Structure texts of the scenarios\<close>

text \<open>
  Scenario A: one coordinate line of the backbone atom of residue 10 at
  \<open>(1.0, 2.0, 3.0)\<close>, with 87.50 in columns 61 to 66.
\<close>

definition scenario_line :: string where
  "scenario_line =
     ''ATOM      2  CA  ALA A  10       1.000   2.000   3.000  1.00 87.50           C  ''"

text \<open>The same line among lines that are not backbone coordinate records.\<close>

definition scenario_text :: string where
  "scenario_text =
     ''HEADER    PROTEIN'' @ [CHR 0x0A] @
     ''ATOM      1  N   ALA A  10       0.500   1.500   2.500  1.00 87.50           N  '' @ [CHR 0x0A] @
     scenario_line @ [CHR 0x0A] @
     ''END''"

text \<open>A backbone line whose first coordinate field does not start a number.\<close>

definition broken_line :: string where
  "broken_line =
     ''ATOM      2  CA  ALA A  10      abc       2.000   3.000  1.00 87.50           C  ''"

text \<open>A second backbone line for residue 10, with other coordinates.\<close>

definition second_line :: string where
  "second_line =
     ''ATOM      9  CA  GLY A  10       4.000   5.000   6.000  1.00 91.25           C  ''"


text \<open>A text without any coordinate record.\<close>

definition header_text :: string where
  "header_text = ''HEADER    PROTEIN'' @ [CHR 0x0A] @ ''END''"

section \<open>The maps of Scenario B\<close>

definition scenario_wild :: "(int, coord) jsmap" where
  "scenario_wild =
     [(10, \<lparr>x = Fin 0, y = Fin 0, z = Fin 0\<rparr>), (11, \<lparr>x = Fin 1, y = Fin 0, z = Fin 0\<rparr>)]"

definition scenario_mutant :: "(int, coord) jsmap" where
  "scenario_mutant =
     [(10, \<lparr>x = Fin 0, y = Fin 0, z = Fin 3\<rparr>), (12, \<lparr>x = Fin 5, y = Fin 5, z = Fin 5\<rparr>)]"

section \<open>Facts about maps\<close>

lemma map_of_Map_set: "map_of (Map_set m k v) = (map_of m)(k \<mapsto> v)"
  by (induction m) (auto simp: fun_eq_iff)

lemma Map_get_Map_set:
  "Map_get (Map_set m k v) k' = (if k' = k then Some v else Map_get m k')"
  by (simp add: Map_get_def map_of_Map_set)


lemma Map_keys_Map_set: "Map_keys (Map_set m k v) = insert k (Map_keys m)"
  by (simp add: Map_keys_def dom_map_of_conv_image_fst [symmetric] map_of_Map_set)

lemma wf_Map_set: "wf_Map m \<Longrightarrow> wf_Map (Map_set m k v)"
proof (induction m)
  case Nil
  then show ?case by (simp add: wf_Map_def)
next
  case (Cons e m)
  obtain k' v' where e: "e = (k', v')" by (cases e)
  from Cons.prems e have "k' \<notin> Map_keys m" and "wf_Map m"
    by (auto simp: wf_Map_def Map_keys_def)
  with Cons.IH e Cons.prems show ?case
    using Map_keys_Map_set [of m k v]
    by (auto simp: wf_Map_def Map_keys_def)
qed

lemma Map_get_None_iff: "Map_get m k = None \<longleftrightarrow> k \<notin> Map_keys m"
  by (simp add: Map_get_def Map_keys_def map_of_eq_None_iff)


section \<open>Facts about the displacement loop\<close>



lemma Map_get_rmsd_loop:
  "wf_Map ws \<Longrightarrow>
   Map_get (rmsd_loop ws m acc) k =
     (case Map_get ws k of
        None \<Rightarrow> Map_get acc k
      | Some wCoord \<Rightarrow>
          (case Map_get m k of
             None \<Rightarrow> Map_get acc k
           | Some mCoord \<Rightarrow> Some (ca_dist wCoord mCoord)))"
proof (induction ws arbitrary: acc)
  case Nil
  then show ?case by (simp add: Map_get_def)
next
  case (Cons e ws)
  obtain resi wCoord where e: "e = (resi, wCoord)" by (cases e)
  from Cons.prems e have wf: "wf_Map ws" and fresh: "resi \<notin> Map_keys ws"
    by (auto simp: wf_Map_def Map_keys_def)
  from fresh have none: "Map_get ws resi = None" by (simp add: Map_get_None_iff)
  have hd: "Map_get (e # ws) k = (if k = resi then Some wCoord else Map_get ws k)"
    by (simp add: e Map_get_def)
  show ?case
  proof (cases "Map_get m resi")
    case None
    with e Cons.IH [OF wf, of acc] hd none show ?thesis
      by (auto split: option.splits)
  next
    case (Some mCoord)
    with e Cons.IH [OF wf, of "Map_set acc resi (ca_dist wCoord mCoord)"] hd none
    show ?thesis
      by (auto simp: Map_get_Map_set split: option.splits)
  qed
qed

lemma Map_get_computePerResidueRmsd:
  "wf_Map wildCa \<Longrightarrow>
   Map_get (computePerResidueRmsd wildCa mutantCa) k =
     (case Map_get wildCa k of
        None \<Rightarrow> None
      | Some wCoord \<Rightarrow>
          (case Map_get mutantCa k of
             None \<Rightarrow> None
           | Some mCoord \<Rightarrow> Some (ca_dist wCoord mCoord)))"
  by (simp add: computePerResidueRmsd_def Map_get_rmsd_loop)
     (simp add: Map_get_def split: option.splits)


section \<open>Facts about numbers\<close>

lemma jsub_square_commute: "jmul (jsub a b) (jsub a b) = jmul (jsub b a) (jsub b a)"
  by (cases a; cases b) (simp_all add: algebra_simps)

lemma ca_dist_commute: "ca_dist c d = ca_dist d c"
  by (simp add: ca_dist_def Let_def jsub_square_commute)




section \<open>The displacement map\<close>

text \<open>
  Scenario B of the specification, computed: residue 10 is the only one in both maps.
\<close>

lemma scenario_B: "computePerResidueRmsd scenario_wild scenario_mutant = [(10, Fin 3)]"
  by (simp add: scenario_wild_def scenario_mutant_def computePerResidueRmsd_def
      Map_get_def ca_dist_def)




text \<open>
  C6: the displacement of a residue is the same whichever of the two maps comes
  first. The two results have the same keys, so this covers every shared key.
\<close>

theorem computePerResidueRmsd_symmetric:
  assumes "wf_Map A" and "wf_Map B"
  shows "Map_get (computePerResidueRmsd A B) k = Map_get (computePerResidueRmsd B A) k"
  by (simp add: Map_get_computePerResidueRmsd assms ca_dist_commute split: option.splits)

theorem computePerResidueRmsd_symmetric_witness:
  "wf_Map scenario_wild \<and> wf_Map scenario_mutant \<and>
   Map_get (computePerResidueRmsd scenario_wild scenario_mutant) 10 = Some (Fin 3) \<and>
   Map_get (computePerResidueRmsd scenario_mutant scenario_wild) 10 = Some (Fin 3)"
proof -
  have wfA: "wf_Map scenario_wild" and wfB: "wf_Map scenario_mutant"
    by (simp_all add: wf_Map_def scenario_wild_def scenario_mutant_def)
  have "Map_get (computePerResidueRmsd scenario_wild scenario_mutant) 10 = Some (Fin 3)"
    by (simp add: scenario_B Map_get_def)
  with computePerResidueRmsd_symmetric [OF wfA wfB, of 10] wfA wfB
  show ?thesis by simp
qed

text \<open>
  C8. The model of \<open>parseCaAtoms\<close> is a function of the text alone, as the source
  reads nothing else, so two calls on one text agree. The displacement map is built
  in the iteration order of \<open>wildCa\<close>, but what it holds depends only on what the
  two input maps hold: inputs with the same entries in another order give a result
  with the same entries.
\<close>

theorem computePerResidueRmsd_order_independent:
  assumes "wf_Map wildCa" and "wf_Map wildCa'"
    and "\<forall>k. Map_get wildCa k = Map_get wildCa' k"
    and "\<forall>k. Map_get mutantCa k = Map_get mutantCa' k"
  shows "(\<forall>k. Map_get (computePerResidueRmsd wildCa mutantCa) k =
              Map_get (computePerResidueRmsd wildCa' mutantCa') k) \<and>
         Map_keys (computePerResidueRmsd wildCa mutantCa) =
           Map_keys (computePerResidueRmsd wildCa' mutantCa') \<and>
         (\<forall>pdb pdb'. pdb = pdb' \<longrightarrow> parseCaAtoms pdb = parseCaAtoms pdb')"
proof -
  have gets: "Map_get (computePerResidueRmsd wildCa mutantCa) k =
      Map_get (computePerResidueRmsd wildCa' mutantCa') k" for k
  proof -
    have a: "Map_get wildCa k = Map_get wildCa' k"
      and b: "Map_get mutantCa k = Map_get mutantCa' k"
      using assms(3,4) by blast+
    show ?thesis
      by (simp only: Map_get_computePerResidueRmsd [OF assms(1)]
          Map_get_computePerResidueRmsd [OF assms(2)] a b)
  qed
  have "k \<in> Map_keys (computePerResidueRmsd wildCa mutantCa) \<longleftrightarrow>
      k \<in> Map_keys (computePerResidueRmsd wildCa' mutantCa')" for k
    using gets [of k] Map_get_None_iff [of _ k] by metis
  then have "Map_keys (computePerResidueRmsd wildCa mutantCa) =
      Map_keys (computePerResidueRmsd wildCa' mutantCa')"
    by blast
  with gets show ?thesis by simp
qed

theorem computePerResidueRmsd_order_independent_witness:
  "wf_Map scenario_wild \<and> wf_Map (rev scenario_wild) \<and>
   (\<forall>k. Map_get scenario_wild k = Map_get (rev scenario_wild) k) \<and>
   (\<forall>k. Map_get scenario_mutant k = Map_get (rev scenario_mutant) k) \<and>
   (\<forall>k. Map_get (computePerResidueRmsd (rev scenario_wild) (rev scenario_mutant)) k =
        Map_get [(10, Fin 3)] k)"
proof -
  have wf: "wf_Map scenario_wild" and wf': "wf_Map (rev scenario_wild)"
    by (simp_all add: wf_Map_def scenario_wild_def)
  have w: "\<forall>k. Map_get scenario_wild k = Map_get (rev scenario_wild) k"
    by (simp add: Map_get_def scenario_wild_def)
  have m: "\<forall>k. Map_get scenario_mutant k = Map_get (rev scenario_mutant) k"
    by (simp add: Map_get_def scenario_mutant_def)
  from computePerResidueRmsd_order_independent [OF wf wf' w m]
  have "\<forall>k. Map_get (computePerResidueRmsd scenario_wild scenario_mutant) k =
      Map_get (computePerResidueRmsd (rev scenario_wild) (rev scenario_mutant)) k"
    by blast
  then have "\<forall>k. Map_get (computePerResidueRmsd (rev scenario_wild) (rev scenario_mutant)) k =
      Map_get [(10, Fin 3)] k"
    by (simp add: scenario_B)
  with wf wf' w m show ?thesis by blast
qed

section \<open>The displacement colour\<close>











text \<open>
  C7: for an atom whose residue has no entry in the displacement map the callback
  takes the value 0 and returns its colour, white.
\<close>

theorem colorfunc_missing_residue:
  assumes "Map_get rmsdMap (resi a) = None"
  shows "colorfunc rmsdMap a = displacement_color (Fin 0) \<and>
         colorfunc rmsdMap a = (Fin 255, Fin 255, Fin 255)"
  using assms by (simp add: colorfunc_def displacement_color_def Map_get_def)

theorem colorfunc_missing_residue_witness:
  "Map_get (computePerResidueRmsd scenario_wild scenario_mutant) (resi \<lparr>resi = 11\<rparr>) = None \<and>
   colorfunc (computePerResidueRmsd scenario_wild scenario_mutant) \<lparr>resi = 11\<rparr> =
     (Fin 255, Fin 255, Fin 255)"
proof -
  have h: "Map_get (computePerResidueRmsd scenario_wild scenario_mutant) (resi \<lparr>resi = 11\<rparr>) = None"
    by (simp add: scenario_B Map_get_def)
  from colorfunc_missing_residue [OF h] h show ?thesis by blast
qed

section \<open>The parser\<close>

lemmas str_defs =
  startsWith_def substring_def trim_def trimStart_def js_whitespace_def strip_sign_def
  is_digit_def digit_val_def digits_val_def exponent_part_def pow10_def
  parseInt_def parseFloat_def isNaN_def

lemma split_not_Nil: "split s sep \<noteq> []"
  by (induction s) (auto split: list.splits)

lemma split_no_sep: "sep \<notin> set s \<Longrightarrow> split s sep = [s]"
  by (induction s) auto

lemma split_append_sep:
  "sep \<notin> set s \<Longrightarrow> split (s @ sep # t) sep = s # split t sep"
  by (induction s) auto

lemma parse_line_ca_record:
  "parse_line atoms line =
     (case ca_record line of None \<Rightarrow> atoms | Some (r, c) \<Rightarrow> Map_set atoms r c)"
  by (simp add: parse_line_def ca_record_def Let_def split: option.splits)

lemma parse_line_None: "ca_record line = None \<Longrightarrow> parse_line atoms line = atoms"
  by (simp add: parse_line_ca_record)

lemma parse_line_Some:
  "ca_record line = Some (r, c) \<Longrightarrow> parse_line atoms line = Map_set atoms r c"
  by (simp add: parse_line_ca_record)

lemma wf_parse_line: "wf_Map atoms \<Longrightarrow> wf_Map (parse_line atoms line)"
  by (cases "ca_record line") (auto simp: parse_line_None parse_line_Some wf_Map_set)

lemma wf_foldl_parse_line: "wf_Map acc \<Longrightarrow> wf_Map (foldl parse_line acc ls)"
  by (induction ls arbitrary: acc) (simp_all add: wf_parse_line)

lemma map_of_foldl_parse_line:
  "map_of (foldl parse_line acc ls) = map_of (rev (List.map_filter ca_record ls) @ acc)"
proof (induction ls arbitrary: acc)
  case Nil
  then show ?case by simp
next
  case (Cons l ls)
  show ?case
  proof (cases "ca_record l")
    case None
    then have "parse_line acc l = acc" by (rule parse_line_None)
    with None show ?thesis
      using Cons.IH [of acc] by simp
  next
    case (Some e)
    obtain r c where e: "e = (r, c)" by (cases e)
    with Some have step: "parse_line acc l = Map_set acc r c"
      by (simp add: parse_line_Some)
    have "map_of (foldl parse_line acc (l # ls)) =
        map_of (rev (List.map_filter ca_record ls) @ Map_set acc r c)"
      using Cons.IH [of "Map_set acc r c"] by (simp add: step)
    also have "\<dots> = map_of (Map_set acc r c) ++ map_of (rev (List.map_filter ca_record ls))"
      by (rule map_of_append)
    also have "\<dots> = map_of ((r, c) # acc) ++ map_of (rev (List.map_filter ca_record ls))"
      by (simp add: map_of_Map_set)
    also have "\<dots> = map_of (rev (List.map_filter ca_record ls) @ (r, c) # acc)"
      by (rule map_of_append [symmetric])
    finally show ?thesis
      using Some e by simp
  qed
qed

lemma foldl_parse_line_no_record:
  "\<forall>l\<in>set ls. ca_record l = None \<Longrightarrow> foldl parse_line acc ls = acc"
  by (induction ls arbitrary: acc) (simp_all add: parse_line_None)

lemma Map_keys_foldl_parse_line:
  "Map_keys (foldl parse_line acc ls) =
     Map_keys acc \<union> {r. \<exists>l\<in>set ls. \<exists>c. ca_record l = Some (r, c)}"
proof (induction ls arbitrary: acc)
  case Nil
  then show ?case by simp
next
  case (Cons l ls)
  show ?case
  proof (cases "ca_record l")
    case None
    then have "parse_line acc l = acc" by (rule parse_line_None)
    with None show ?thesis
      using Cons.IH [of acc] by auto
  next
    case (Some e)
    obtain r c where e: "e = (r, c)" by (cases e)
    with Some have step: "parse_line acc l = Map_set acc r c"
      by (simp add: parse_line_Some)
    have "Map_keys (foldl parse_line acc (l # ls)) =
        insert r (Map_keys acc) \<union> {r. \<exists>l\<in>set ls. \<exists>c. ca_record l = Some (r, c)}"
      using Cons.IH [of "Map_set acc r c"] by (simp add: step Map_keys_Map_set)
    with Some e show ?thesis by auto
  qed
qed

lemma parseCaAtoms_map_of:
  "Map_get (parseCaAtoms pdb) k =
     map_of (rev (List.map_filter ca_record (split pdb CHR 0x0A))) k"
  by (simp add: parseCaAtoms_def Map_get_def map_of_foldl_parse_line)

lemma wf_parseCaAtoms: "wf_Map (parseCaAtoms pdb)"
  unfolding parseCaAtoms_def by (rule wf_foldl_parse_line) (simp add: wf_Map_def)

lemma substring_fields:
  assumes "length pre = 12" and "length name = 4" and "length mid = 6"
    and "length rs = 4" and "length gap = 4"
    and "length xs = 8" and "length ys = 8" and "length zs = 8"
  shows "substring (pre @ name @ mid @ rs @ gap @ xs @ ys @ zs @ rest) 12 16 = name"
    and "substring (pre @ name @ mid @ rs @ gap @ xs @ ys @ zs @ rest) 22 26 = rs"
    and "substring (pre @ name @ mid @ rs @ gap @ xs @ ys @ zs @ rest) 30 38 = xs"
    and "substring (pre @ name @ mid @ rs @ gap @ xs @ ys @ zs @ rest) 38 46 = ys"
    and "substring (pre @ name @ mid @ rs @ gap @ xs @ ys @ zs @ rest) 46 54 = zs"
  using assms by (simp_all add: substring_def)

lemma ca_record_scenario_line:
  "ca_record scenario_line = Some (10, \<lparr>x = Fin 1, y = Fin 2, z = Fin 3\<rparr>)"
  by (simp add: scenario_line_def ca_record_def str_defs)

lemma ca_record_second_line:
  "ca_record second_line = Some (10, \<lparr>x = Fin 4, y = Fin 5, z = Fin 6\<rparr>)"
  by (simp add: second_line_def ca_record_def str_defs)

lemma split_scenario_text:
  "split scenario_text CHR 0x0A =
     [''HEADER    PROTEIN'',
      ''ATOM      1  N   ALA A  10       0.500   1.500   2.500  1.00 87.50           N  '',
      scenario_line, ''END'']"
  by (simp add: scenario_text_def scenario_line_def)

text \<open>Scenario A with the line among other lines: the nitrogen atom is not kept.\<close>

lemma parseCaAtoms_scenario_text:
  "parseCaAtoms scenario_text = [(10, \<lparr>x = Fin 1, y = Fin 2, z = Fin 3\<rparr>)]"
  by (simp add: parseCaAtoms_def split_scenario_text parse_line_def scenario_line_def str_defs)

text \<open>
  C3: the parser reads the atom name from columns 13 to 16, the residue index from
  columns 23 to 26 and the coordinates from columns 31 to 38, 39 to 46 and 47 to 54
  of a line that starts with \<open>ATOM\<close> and two blanks; what follows column 54, the
  confidence in columns 61 to 66 included, does not matter. A text of one such line
  gives the map with this one residue.
\<close>

theorem parseCaAtoms_columns:
  assumes "length pre = 12" and "startsWith pre ''ATOM  ''"
    and "length name = 4" and "trim name = ''CA''"
    and "length mid = 6"
    and "length rs = 4" and "parseInt (trim rs) = Some r"
    and "length gap = 4"
    and "length xs = 8" and "\<not> isNaN (parseFloat (trim xs))"
    and "length ys = 8" and "\<not> isNaN (parseFloat (trim ys))"
    and "length zs = 8" and "\<not> isNaN (parseFloat (trim zs))"
    and "CHR 0x0A \<notin> set (pre @ name @ mid @ rs @ gap @ xs @ ys @ zs @ rest)"
  shows "parseCaAtoms (pre @ name @ mid @ rs @ gap @ xs @ ys @ zs @ rest) =
    [(r, \<lparr>x = parseFloat (trim xs), y = parseFloat (trim ys), z = parseFloat (trim zs)\<rparr>)]"
proof -
  let ?line = "pre @ name @ mid @ rs @ gap @ xs @ ys @ zs @ rest"
  have lines: "split ?line CHR 0x0A = [?line]"
    using assms(15) by (rule split_no_sep)
  have start: "startsWith ?line ''ATOM  ''"
    using assms(1,2) by (simp add: startsWith_def)
  note fields = substring_fields [OF assms(1) assms(3) assms(5) assms(6) assms(8)
      assms(9) assms(11) assms(13), of rest]
  have "parse_line [] ?line =
      [(r, \<lparr>x = parseFloat (trim xs), y = parseFloat (trim ys), z = parseFloat (trim zs)\<rparr>)]"
    unfolding parse_line_def fields
    using start assms(4,7,10,12,14) by simp
  then show ?thesis
    by (simp only: parseCaAtoms_def lines foldl.simps)
qed

theorem parseCaAtoms_columns_witness:
  "scenario_line =
     ''ATOM      2 '' @ '' CA '' @ '' ALA A'' @ ''  10'' @ ''    '' @
     ''   1.000'' @ ''   2.000'' @ ''   3.000'' @ ''  1.00 87.50           C  '' \<and>
   substring scenario_line 60 66 = '' 87.50'' \<and>
   parseCaAtoms scenario_line = [(10, \<lparr>x = Fin 1, y = Fin 2, z = Fin 3\<rparr>)]"
proof -
  have line: "scenario_line =
     ''ATOM      2 '' @ '' CA '' @ '' ALA A'' @ ''  10'' @ ''    '' @
     ''   1.000'' @ ''   2.000'' @ ''   3.000'' @ ''  1.00 87.50           C  ''"
    by (simp add: scenario_line_def)
  have conf: "substring scenario_line 60 66 = '' 87.50''"
    by (simp add: scenario_line_def substring_def)
  have "parseCaAtoms (''ATOM      2 '' @ '' CA '' @ '' ALA A'' @ ''  10'' @ ''    '' @
     ''   1.000'' @ ''   2.000'' @ ''   3.000'' @ ''  1.00 87.50           C  '') =
     [(10, \<lparr>x = parseFloat (trim ''   1.000''), y = parseFloat (trim ''   2.000''),
            z = parseFloat (trim ''   3.000'')\<rparr>)]"
    by (rule parseCaAtoms_columns) (simp_all add: str_defs)
  moreover have "parseFloat (trim ''   1.000'') = Fin 1"
    and "parseFloat (trim ''   2.000'') = Fin 2"
    and "parseFloat (trim ''   3.000'') = Fin 3"
    by (simp_all add: str_defs)
  ultimately have "parseCaAtoms scenario_line = [(10, \<lparr>x = Fin 1, y = Fin 2, z = Fin 3\<rparr>)]"
    by (simp only: line)
  with line conf show ?thesis by blast
qed

text \<open>
  C4: the parser returns a map for every text. A backbone line whose residue index
  or one of whose coordinates is NaN leaves the map as it is, so the keys of the
  result are the residue indices of the lines that pass every test. The empty text,
  and a text none of whose lines starts a coordinate record, give the empty map.
\<close>

theorem parseCaAtoms_tolerant:
  "wf_Map (parseCaAtoms pdb) \<and>
   (\<forall>atoms line.
      startsWith line ''ATOM  '' \<and> trim (substring line 12 16) = ''CA'' \<and>
      (parseInt (trim (substring line 22 26)) = None \<or>
       isNaN (parseFloat (trim (substring line 30 38))) \<or>
       isNaN (parseFloat (trim (substring line 38 46))) \<or>
       isNaN (parseFloat (trim (substring line 46 54)))) \<longrightarrow>
      parse_line atoms line = atoms) \<and>
   Map_keys (parseCaAtoms pdb) =
     {r. \<exists>line\<in>set (split pdb CHR 0x0A). \<exists>c. ca_record line = Some (r, c)} \<and>
   parseCaAtoms [] = [] \<and>
   ((\<forall>line\<in>set (split pdb CHR 0x0A). \<not> startsWith line ''ATOM  '') \<longrightarrow>
      parseCaAtoms pdb = [])"
proof (intro conjI allI impI)
  show "wf_Map (parseCaAtoms pdb)" by (rule wf_parseCaAtoms)
next
  fix atoms line
  assume "startsWith line ''ATOM  '' \<and> trim (substring line 12 16) = ''CA'' \<and>
      (parseInt (trim (substring line 22 26)) = None \<or>
       isNaN (parseFloat (trim (substring line 30 38))) \<or>
       isNaN (parseFloat (trim (substring line 38 46))) \<or>
       isNaN (parseFloat (trim (substring line 46 54))))"
  then show "parse_line atoms line = atoms"
    by (auto simp: parse_line_def Let_def split: option.splits)
next
  show "Map_keys (parseCaAtoms pdb) =
     {r. \<exists>line\<in>set (split pdb CHR 0x0A). \<exists>c. ca_record line = Some (r, c)}"
    by (simp add: parseCaAtoms_def Map_keys_foldl_parse_line) (simp add: Map_keys_def)
next
  show "parseCaAtoms [] = []"
    by (simp add: parseCaAtoms_def parse_line_def startsWith_def)
next
  assume "\<forall>line\<in>set (split pdb CHR 0x0A). \<not> startsWith line ''ATOM  ''"
  then have "\<forall>line\<in>set (split pdb CHR 0x0A). ca_record line = None"
    by (simp add: ca_record_def)
  then show "parseCaAtoms pdb = []"
    unfolding parseCaAtoms_def by (rule foldl_parse_line_no_record)
qed

theorem parseCaAtoms_tolerant_witness:
  "startsWith broken_line ''ATOM  '' \<and> trim (substring broken_line 12 16) = ''CA'' \<and>
   isNaN (parseFloat (trim (substring broken_line 30 38))) \<and>
   parse_line [] broken_line = [] \<and>
   split header_text CHR 0x0A = [''HEADER    PROTEIN'', ''END''] \<and>
   parseCaAtoms header_text = []"
proof -
  have b: "startsWith broken_line ''ATOM  '' \<and> trim (substring broken_line 12 16) = ''CA'' \<and>
      isNaN (parseFloat (trim (substring broken_line 30 38)))"
    by (simp add: broken_line_def str_defs)
  have h: "split header_text CHR 0x0A = [''HEADER    PROTEIN'', ''END'']"
    by (simp add: header_text_def)
  have n: "\<forall>line\<in>set (split header_text CHR 0x0A). \<not> startsWith line ''ATOM  ''"
    by (simp add: h startsWith_def)
  from parseCaAtoms_tolerant [of broken_line] b have "parse_line [] broken_line = []"
    by blast
  moreover from parseCaAtoms_tolerant [of header_text] n have "parseCaAtoms header_text = []"
    by blast
  ultimately show ?thesis using b h by blast
qed

text \<open>
  C10: the result has one entry per residue index, and the entry of a residue is
  that of the last line, in the order of the text, that is a backbone record of this
  residue, whatever records of the residue come before it.
\<close>

theorem parseCaAtoms_last_record:
  "wf_Map (parseCaAtoms pdb) \<and>
   Map_get (parseCaAtoms pdb) k =
     map_of (rev (List.map_filter ca_record (split pdb CHR 0x0A))) k \<and>
   (\<forall>before line after r c.
      split pdb CHR 0x0A = before @ [line] @ after \<and>
      ca_record line = Some (r, c) \<and>
      (\<forall>l\<in>set after. \<forall>c'. ca_record l \<noteq> Some (r, c')) \<longrightarrow>
      Map_get (parseCaAtoms pdb) r = Some c)"
proof (intro conjI allI impI)
  show "wf_Map (parseCaAtoms pdb)" by (rule wf_parseCaAtoms)
next
  show "Map_get (parseCaAtoms pdb) k =
     map_of (rev (List.map_filter ca_record (split pdb CHR 0x0A))) k"
    by (rule parseCaAtoms_map_of)
next
  fix before line after r c
  assume a: "split pdb CHR 0x0A = before @ [line] @ after \<and>
      ca_record line = Some (r, c) \<and>
      (\<forall>l\<in>set after. \<forall>c'. ca_record l \<noteq> Some (r, c'))"
  then have "r \<notin> fst ` set (List.map_filter ca_record after)"
    by (auto simp: List.map_filter_def)
  then have none: "map_of (rev (List.map_filter ca_record after)) r = None"
    by (simp add: map_of_eq_None_iff)
  have "List.map_filter ca_record (before @ [line] @ after) =
      List.map_filter ca_record before @ [(r, c)] @ List.map_filter ca_record after"
    using a by (simp add: List.map_filter_def)
  then have "map_of (rev (List.map_filter ca_record (split pdb CHR 0x0A))) r =
      map_of (rev (List.map_filter ca_record after) @
        (r, c) # rev (List.map_filter ca_record before)) r"
    using a by simp
  also have "\<dots> = Some c"
    using none by (simp add: map_add_def)
  finally show "Map_get (parseCaAtoms pdb) r = Some c"
    by (simp add: parseCaAtoms_map_of)
qed

theorem parseCaAtoms_last_record_witness:
  "split (scenario_line @ [CHR 0x0A] @ second_line) CHR 0x0A =
     [scenario_line] @ [second_line] @ [] \<and>
   ca_record scenario_line = Some (10, \<lparr>x = Fin 1, y = Fin 2, z = Fin 3\<rparr>) \<and>
   ca_record second_line = Some (10, \<lparr>x = Fin 4, y = Fin 5, z = Fin 6\<rparr>) \<and>
   Map_get (parseCaAtoms (scenario_line @ [CHR 0x0A] @ second_line)) 10 =
     Some \<lparr>x = Fin 4, y = Fin 5, z = Fin 6\<rparr>"
proof -
  have s: "split (scenario_line @ [CHR 0x0A] @ second_line) CHR 0x0A =
      [scenario_line] @ [second_line] @ []"
    by (simp add: scenario_line_def second_line_def)
  have e: "\<forall>l\<in>set []. \<forall>c'. ca_record l \<noteq> Some (10, c')"
    by simp
  from parseCaAtoms_last_record [of "scenario_line @ [CHR 0x0A] @ second_line"]
    s ca_record_second_line e
  have "Map_get (parseCaAtoms (scenario_line @ [CHR 0x0A] @ second_line)) 10 =
      Some \<lparr>x = Fin 4, y = Fin 5, z = Fin 6\<rparr>"
    by blast
  with s ca_record_scenario_line ca_record_second_line show ?thesis by blast
qed

section \<open>The rendering cycle\<close>

lemmas cyc_defs = deps_def isDual_def surfaces_def
  run_effect_def effect_def load3Dmol_def addEventListener_def cleanup_def load_cleanup_def
  fire_def onReady_def createViewer_def

lemma inv_init: "cycle_inv init"
  by (simp add: cycle_inv_def init_def)

lemma inv_unmount: "cycle_inv s \<Longrightarrow> cycle_inv (step s Unmount)"
  by (auto simp: cycle_inv_def cleanup_def load_cleanup_def Let_def split: option.splits)

lemma inv_scriptload: "cycle_inv s \<Longrightarrow> cycle_inv (step s ScriptLoad)"
  by (auto simp: cycle_inv_def cyc_defs Let_def split: option.splits)



lemma cleanup_fields:
  "engine (cleanup c s) = engine s"
  "script_tag (cleanup c s) = script_tag s"
  "load_listeners (cleanup c s) = filter (\<lambda>l. fst l \<noteq> c) (load_listeners s)"
  "load_cancelled (cleanup c s) = insert c (load_cancelled s)"
  "effect_cancelled (cleanup c s) = insert c (effect_cancelled s)"
  "wrappers (cleanup c s) = wrappers s"
  "created (cleanup c s) = created s"
  "live (cleanup c s) = filter (\<lambda>v. owner v \<noteq> c) (live s)"
  "current (cleanup c s) = current s"
  "next_cycle (cleanup c s) = next_cycle s"
  by (simp_all add: cleanup_def load_cleanup_def Let_def)

lemma run_effect_pending:
  assumes "\<not> engine s"
  shows "run_effect p s =
    s\<lparr>current := Some (next_cycle s, p), next_cycle := Suc (next_cycle s),
      loading := True, script_tag := True,
      load_listeners := load_listeners s @ [(next_cycle s, p)]\<rparr>"
  using assms
  by (cases "script_tag s")
     (simp_all add: run_effect_def effect_def load3Dmol_def addEventListener_def)

lemma onReady_ready:
  assumes "engine s" and "c \<notin> effect_cancelled s" and "wrappers s = set (surfaces p)"
  shows "onReady c p s =
    s\<lparr>created := created s @ viewers_of c p, live := live s @ viewers_of c p,
      loading := False\<rparr>"
  using assms
  by (auto simp: onReady_def createViewer_def viewers_of_def surfaces_def isDual_def
      split: option.splits)

lemma run_effect_ready:
  assumes "engine s" and "next_cycle s \<notin> effect_cancelled s"
    and "next_cycle s \<notin> load_cancelled s" and "wrappers s = set (surfaces p)"
  shows "run_effect p s =
    s\<lparr>current := Some (next_cycle s, p), next_cycle := Suc (next_cycle s),
      created := created s @ viewers_of (next_cycle s) p,
      live := live s @ viewers_of (next_cycle s) p, loading := False\<rparr>"
  using assms
  by (simp add: run_effect_def effect_def load3Dmol_def fire_def onReady_ready)

lemma mount_viewers_of: "map mount (viewers_of c p) = surfaces p"
  by (simp add: viewers_of_def surfaces_def)

lemma owner_viewers_of: "v \<in> set (viewers_of c p) \<Longrightarrow> owner v = c"
  by (auto simp: viewers_of_def split: if_splits)


lemma live_filter_owner:
  assumes "\<forall>v\<in>set (live s). \<exists>p. current s = Some (owner v, p)" and "current s = Some (c, q)"
  shows "filter (\<lambda>v. owner v \<noteq> c) (live s) = []"
  using assms by (auto simp: filter_empty_conv)

lemma surfaces_deps: "deps q = deps p \<Longrightarrow> surfaces q = surfaces p"
  by (simp add: deps_def surfaces_def)

lemma inv_render: 
  assumes inv: "cycle_inv s"
  shows "cycle_inv (step s (Render p))"
proof (cases "current s")
  case None
  let ?s1 = "s\<lparr>wrappers := set (surfaces p)\<rparr>"
  have st: "step s (Render p) = run_effect p ?s1"
    using None by simp
  show ?thesis
  proof (cases "engine s")
    case False
    then have "run_effect p ?s1 =
      ?s1\<lparr>current := Some (next_cycle ?s1, p), next_cycle := Suc (next_cycle ?s1),
        loading := True, script_tag := True,
        load_listeners := load_listeners ?s1 @ [(next_cycle ?s1, p)]\<rparr>"
      by (intro run_effect_pending) simp
    with inv None False show ?thesis
      unfolding st by (auto simp: cycle_inv_def intro: less_SucI)
  next
    case True
    from inv have fresh: "next_cycle s \<notin> effect_cancelled s" "next_cycle s \<notin> load_cancelled s"
      by (auto simp: cycle_inv_def)
    from inv True None have nolive: "live s = []"
      by (simp add: cycle_inv_def)
    have "run_effect p ?s1 =
      ?s1\<lparr>current := Some (next_cycle ?s1, p), next_cycle := Suc (next_cycle ?s1),
        created := created ?s1 @ viewers_of (next_cycle ?s1) p,
        live := live ?s1 @ viewers_of (next_cycle ?s1) p, loading := False\<rparr>"
      using True fresh by (intro run_effect_ready) simp_all
    with inv None True nolive show ?thesis
      unfolding st by (auto simp: cycle_inv_def mount_viewers_of dest: owner_viewers_of intro: less_SucI)
  qed
next
  case (Some cq)
  obtain c q where cq: "cq = (c, q)" by (cases cq)
  let ?s1 = "s\<lparr>wrappers := set (surfaces p)\<rparr>"
  show ?thesis
  proof (cases "deps q = deps p")
    case True
    then have st: "step s (Render p) = ?s1"
      using Some cq by simp
    from True have "surfaces q = surfaces p" by (rule surfaces_deps)
    with inv Some cq show ?thesis
      unfolding st by (auto simp: cycle_inv_def)
  next
    case False
    let ?s2 = "cleanup c ?s1"
    have st: "step s (Render p) = run_effect p ?s2"
      using Some cq False by simp
    from inv Some cq have c: "c < next_cycle s"
      by (simp add: cycle_inv_def)
    from inv have old: "\<forall>c\<in>effect_cancelled s \<union> load_cancelled s. c < next_cycle s"
      by (simp add: cycle_inv_def)
    from inv Some cq have nolive: "live ?s2 = []"
      by (simp add: cleanup_fields cycle_inv_def live_filter_owner)
    show ?thesis
    proof (cases "engine s")
      case False
      then have eq: "run_effect p ?s2 =
        ?s2\<lparr>current := Some (next_cycle ?s2, p), next_cycle := Suc (next_cycle ?s2),
          loading := True, script_tag := True,
          load_listeners := load_listeners ?s2 @ [(next_cycle ?s2, p)]\<rparr>"
        by (intro run_effect_pending) (simp add: cleanup_fields)
      from inv False Some cq have "load_listeners s = [(c, q)]" and "created s = []"
        by (simp_all add: cycle_inv_def)
      with False c old nolive show ?thesis
        unfolding st eq by (auto simp: cycle_inv_def cleanup_fields intro: less_SucI)
    next
      case True
      from c old have fresh: "next_cycle ?s2 \<notin> effect_cancelled ?s2"
          "next_cycle ?s2 \<notin> load_cancelled ?s2"
        by (auto simp: cleanup_fields)
      have eq: "run_effect p ?s2 =
        ?s2\<lparr>current := Some (next_cycle ?s2, p), next_cycle := Suc (next_cycle ?s2),
          created := created ?s2 @ viewers_of (next_cycle ?s2) p,
          live := live ?s2 @ viewers_of (next_cycle ?s2) p, loading := False\<rparr>"
        using True fresh by (intro run_effect_ready) (simp_all add: cleanup_fields)
      from True c old nolive show ?thesis
        unfolding st eq
        by (auto simp: cycle_inv_def cleanup_fields mount_viewers_of dest: owner_viewers_of
            intro: less_SucI)
    qed
  qed
qed

lemma inv_step: "cycle_inv s \<Longrightarrow> cycle_inv (step s e)"
  by (cases e) (simp_all only: inv_render inv_unmount inv_scriptload)

lemma inv_run: "cycle_inv s \<Longrightarrow> cycle_inv (run es s)"
  unfolding run_def by (induction es arbitrary: s) (simp_all add: inv_step)


lemma inv_reachable: "cycle_inv (run es init)"
  by (rule inv_run) (rule inv_init)

lemma fire_cancelled:
  "c \<in> effect_cancelled t \<or> c \<in> load_cancelled t \<Longrightarrow> fire c p t = t"
  by (auto simp: fire_def onReady_def)

lemma stale_onReady: "stale c vs s \<Longrightarrow> stale c vs (onReady c' p s)"
  by (auto simp: stale_def onReady_def createViewer_def split: option.splits)

lemma stale_fire: "stale c vs s \<Longrightarrow> stale c vs (fire c' p s)"
  by (simp add: fire_def stale_onReady)

lemma stale_fire_all:
  "stale c vs s \<Longrightarrow> stale c vs (foldl (\<lambda>t l. fire (fst l) (snd l) t) s ls)"
  by (induction ls arbitrary: s) (simp_all add: stale_fire)

lemma stale_cleanup: "stale c vs s \<Longrightarrow> stale c vs (cleanup c' s)"
  by (simp add: stale_def cleanup_fields)

lemma stale_load3Dmol: "stale c vs s \<Longrightarrow> stale c vs (load3Dmol c' p s)"
proof -
  assume a: "stale c vs s"
  then have "stale c vs (addEventListener c' p s)"
    and "stale c vs (addEventListener c' p (s\<lparr>script_tag := True\<rparr>))"
    by (simp_all add: stale_def addEventListener_def)
  with a show ?thesis
    by (simp add: load3Dmol_def stale_fire)
qed

lemma stale_run_effect: "stale c vs s \<Longrightarrow> stale c vs (run_effect p s)"
proof -
  assume "stale c vs s"
  then have "stale c vs
      (s\<lparr>current := Some (next_cycle s, p), next_cycle := Suc (next_cycle s),
        loading := True\<rparr>)"
    by (simp add: stale_def)
  then show ?thesis
    unfolding run_effect_def effect_def
    by (simp add: stale_load3Dmol)
qed

lemma stale_step: "stale c vs s \<Longrightarrow> stale c vs (step s e)"
proof (cases e)
  case (Render p)
  assume a: "stale c vs s"
  then have w: "stale c vs (s\<lparr>wrappers := set (surfaces p)\<rparr>)"
    by (simp add: stale_def)
  with Render show ?thesis
    by (auto simp: Let_def stale_run_effect stale_cleanup split: option.splits)
next
  case Unmount
  assume a: "stale c vs s"
  have "stale c vs t \<Longrightarrow> stale c vs (t\<lparr>wrappers := {}, current := None\<rparr>)" for t
    by (simp add: stale_def)
  moreover from a have "stale c vs (s\<lparr>wrappers := {}\<rparr>)"
    by (simp add: stale_def)
  ultimately show ?thesis
    using a Unmount by (auto simp: stale_cleanup split: option.splits)
next
  case ScriptLoad
  assume a: "stale c vs s"
  then have "stale c vs (s\<lparr>engine := True\<rparr>)"
    by (simp add: stale_def)
  then have "stale c vs
      (foldl (\<lambda>t l. fire (fst l) (snd l) t) (s\<lparr>engine := True\<rparr>) (load_listeners s))"
    by (rule stale_fire_all)
  with a ScriptLoad show ?thesis by simp
qed

lemma stale_run: "stale c vs s \<Longrightarrow> stale c vs (run es s)"
  unfolding run_def by (induction es arbitrary: s) (simp_all add: stale_step)

lemma distinct_surfaces: "distinct (surfaces p)"
  by (simp add: surfaces_def)

lemma distinct_live:
  assumes "cycle_inv s"
  shows "distinct (map mount (live s))"
proof (cases "engine s")
  case False
  with assms show ?thesis by (simp add: cycle_inv_def)
next
  case True
  show ?thesis
  proof (cases "current s")
    case None
    with assms True show ?thesis by (simp add: cycle_inv_def)
  next
    case (Some cp)
    obtain c p where "cp = (c, p)" by (cases cp)
    with assms True Some have "map mount (live s) = surfaces p"
      by (simp add: cycle_inv_def)
    then show ?thesis by (simp add: distinct_surfaces)
  qed
qed

lemma cancelled_stays_stale:
  assumes "cycle_inv s" and "c \<in> effect_cancelled s"
  shows "filter (\<lambda>v. owner v = c) (created (run es' s)) =
    filter (\<lambda>v. owner v = c) (created s)"
proof -
  from assms have "c < next_cycle s"
    by (auto simp: cycle_inv_def)
  with assms(2) have "stale c (filter (\<lambda>v. owner v = c) (created s)) s"
    by (simp add: stale_def)
  then have "stale c (filter (\<lambda>v. owner v = c) (created s)) (run es' s)"
    by (rule stale_run)
  then show ?thesis by (simp add: stale_def)
qed

lemma scenario_D_pending:
  "run [Render first_props, Render second_props] init =
     \<lparr>engine = False, script_tag = True, load_listeners = [(1, second_props)],
      load_cancelled = {0}, effect_cancelled = {0}, wrappers = {SingleSurface},
      created = [], live = [], loading = True,
      current = Some (1, second_props), next_cycle = 2\<rparr>"
  by (simp add: run_def init_def first_props_def second_props_def cyc_defs)

lemma scenario_D_loaded:
  "run [ScriptLoad] (run [Render first_props, Render second_props] init) =
     \<lparr>engine = True, script_tag = True, load_listeners = [(1, second_props)],
      load_cancelled = {0}, effect_cancelled = {0}, wrappers = {SingleSurface},
      created = [\<lparr>owner = 1, mount = SingleSurface, model = ''second''\<rparr>],
      live = [\<lparr>owner = 1, mount = SingleSurface, model = ''second''\<rparr>],
      loading = False, current = Some (1, second_props), next_cycle = 2\<rparr>"
  unfolding scenario_D_pending
  by (simp add: run_def second_props_def cyc_defs)

text \<open>
  C5. \<open>fire\<close> of a cancelled cycle changes nothing. After any sequence of
  renderings, unmounts and the load of the script: every live viewer belongs to the
  current cycle; no wrapper holds two live viewers; once the engine is there, the
  current cycle has exactly one live viewer on each of its wrappers; and whatever
  happens later, a cancelled cycle creates no further viewer, so a cycle cancelled
  before the engine was there never creates one.
\<close>

theorem cancelled_cycle_creates_no_viewer:
  "(\<forall>c p t. c \<in> effect_cancelled t \<or> c \<in> load_cancelled t \<longrightarrow> fire c p t = t) \<and>
   (\<forall>v\<in>set (live (run es init)). \<exists>p. current (run es init) = Some (owner v, p)) \<and>
   distinct (map mount (live (run es init))) \<and>
   (\<forall>c p. engine (run es init) \<and> current (run es init) = Some (c, p) \<longrightarrow>
      map mount (live (run es init)) = surfaces p) \<and>
   (\<forall>c\<in>effect_cancelled (run es init). \<forall>es'.
      filter (\<lambda>v. owner v = c) (created (run es' (run es init))) =
      filter (\<lambda>v. owner v = c) (created (run es init))) \<and>
   (\<forall>c\<in>effect_cancelled (run es init). \<not> engine (run es init) \<longrightarrow>
      (\<forall>es'. \<forall>v\<in>set (created (run es' (run es init))). owner v \<noteq> c))"
proof -
  let ?s = "run es init"
  have inv: "cycle_inv ?s" by (rule inv_reachable)
  have noop: "\<forall>c p t. c \<in> effect_cancelled t \<or> c \<in> load_cancelled t \<longrightarrow> fire c p t = t"
    by (simp add: fire_cancelled)
  have own: "\<forall>v\<in>set (live ?s). \<exists>p. current ?s = Some (owner v, p)"
    using inv by (simp add: cycle_inv_def)
  have one: "distinct (map mount (live ?s))"
    using inv by (rule distinct_live)
  have each: "\<forall>c p. engine ?s \<and> current ?s = Some (c, p) \<longrightarrow>
      map mount (live ?s) = surfaces p"
    using inv by (auto simp: cycle_inv_def)
  have later: "\<forall>c\<in>effect_cancelled ?s. \<forall>es'.
      filter (\<lambda>v. owner v = c) (created (run es' ?s)) =
      filter (\<lambda>v. owner v = c) (created ?s)"
    using inv by (simp add: cancelled_stays_stale)
  have never: "\<forall>c\<in>effect_cancelled ?s. \<not> engine ?s \<longrightarrow>
      (\<forall>es'. \<forall>v\<in>set (created (run es' ?s)). owner v \<noteq> c)"
  proof (intro ballI impI allI)
    fix c es' v
    assume c: "c \<in> effect_cancelled ?s" and e: "\<not> engine ?s"
      and v: "v \<in> set (created (run es' ?s))"
    from inv e have "created ?s = []" by (simp add: cycle_inv_def)
    with later c have "filter (\<lambda>v. owner v = c) (created (run es' ?s)) = []"
      by simp
    with v show "owner v \<noteq> c" by (auto simp: filter_empty_conv)
  qed
  from noop own one each later never show ?thesis by blast
qed

theorem cancelled_cycle_creates_no_viewer_witness:
  "0 \<in> effect_cancelled (run [Render first_props, Render second_props] init) \<and>
   \<not> engine (run [Render first_props, Render second_props] init) \<and>
   filter (\<lambda>v. owner v = 0)
     (created (run [ScriptLoad] (run [Render first_props, Render second_props] init))) = [] \<and>
   created (run [ScriptLoad] (run [Render first_props, Render second_props] init)) =
     [\<lparr>owner = 1, mount = SingleSurface, model = pdbData second_props\<rparr>] \<and>
   live (run [ScriptLoad] (run [Render first_props, Render second_props] init)) =
     [\<lparr>owner = 1, mount = SingleSurface, model = pdbData second_props\<rparr>]"
proof -
  let ?s = "run [Render first_props, Render second_props] init"
  have c: "0 \<in> effect_cancelled ?s" and e: "\<not> engine ?s" and n: "created ?s = []"
    by (simp_all add: scenario_D_pending)
  from cancelled_cycle_creates_no_viewer [of "[Render first_props, Render second_props]"] c
  have "filter (\<lambda>v. owner v = 0) (created (run [ScriptLoad] ?s)) =
      filter (\<lambda>v. owner v = 0) (created ?s)"
    by blast
  with n have "filter (\<lambda>v. owner v = 0) (created (run [ScriptLoad] ?s)) = []"
    by simp
  moreover have "created (run [ScriptLoad] ?s) =
      [\<lparr>owner = 1, mount = SingleSurface, model = pdbData second_props\<rparr>]"
    and "live (run [ScriptLoad] ?s) =
      [\<lparr>owner = 1, mount = SingleSurface, model = pdbData second_props\<rparr>]"
    unfolding scenario_D_loaded by (simp_all add: second_props_def)
  ultimately show ?thesis using c e by blast
qed

end
